theory Spec2Isabelle
  imports Complex_Main "HOL-Library.Word"
begin

section \<open>The lock-free order book of \<^verbatim>\<open>examples/cpp/order_book.hpp\<close>\<close>

text \<open>
  The header declares \<^verbatim>\<open>struct PriceLevel\<close> and the class template
  \<^verbatim>\<open>LockFreeOrderBook<MaxLevels>\<close>. This theory models one thread calling the
  member functions one after the other: every call runs to completion before the next
  one starts. Under that reading the compare-exchange of \<^verbatim>\<open>update_level\<close> always
  finds the value it has just loaded; it is modelled all the same, with both outcomes.
\<close>

subsection \<open>Values of type \<^verbatim>\<open>double\<close>\<close>

text \<open>
  The code only compares prices (\<^verbatim>\<open>==\<close>, \<^verbatim>\<open><\<close>, \<^verbatim>\<open>>\<close>) and, in the two
  aggregate helpers, adds, subtracts and halves them. A \<^verbatim>\<open>double\<close> is a NaN, an
  infinity or a finite number. The finite numbers are taken from the reals: every finite
  binary64 value is one of them, and the sign of a zero, which no comparison can see, is
  left out. A statement proved for all values of this type therefore covers every
  \<^verbatim>\<open>double\<close>; concrete inputs below are small integers and halves, which binary64
  holds exactly. The comparisons follow IEEE 754: each is false as soon as one side
  is a NaN.
\<close>

datatype double = NaN | NInf | Fin real | PInf

fun d_lt :: "double \<Rightarrow> double \<Rightarrow> bool" where
  "d_lt NaN y = False"
| "d_lt x NaN = False"
| "d_lt x NInf = False"
| "d_lt NInf y = True"
| "d_lt PInf y = False"
| "d_lt (Fin a) PInf = True"
| "d_lt (Fin a) (Fin b) = (a < b)"

definition d_gt :: "double \<Rightarrow> double \<Rightarrow> bool" where
  "d_gt x y = d_lt y x"

definition d_eq :: "double \<Rightarrow> double \<Rightarrow> bool" where
  "d_eq x y = (x \<noteq> NaN \<and> x = y)"

definition d_ge :: "double \<Rightarrow> double \<Rightarrow> bool" where
  "d_ge x y = (d_gt x y \<or> d_eq x y)"

text \<open>\<^verbatim>\<open>std::numeric_limits<double>::max()\<close>, the largest finite binary64 value.\<close>

definition DBL_MAX :: double where
  "DBL_MAX = Fin (2 ^ 1024 - 2 ^ 971)"

text \<open>
  Arithmetic without rounding: the exact result where both operands are finite, and the
  IEEE 754 results where one is infinite or a NaN. A zero has no sign here; a zero
  divisor is read as \<open>+0\<close>. These operations stand in where a statement needs a sign or
  a concrete value; the code itself only divides by \<open>2.0\<close>.
\<close>

fun d_add_exact :: "double \<Rightarrow> double \<Rightarrow> double" where
  "d_add_exact NaN y = NaN"
| "d_add_exact x NaN = NaN"
| "d_add_exact PInf NInf = NaN"
| "d_add_exact NInf PInf = NaN"
| "d_add_exact PInf y = PInf"
| "d_add_exact NInf y = NInf"
| "d_add_exact (Fin a) PInf = PInf"
| "d_add_exact (Fin a) NInf = NInf"
| "d_add_exact (Fin a) (Fin b) = Fin (a + b)"

fun d_sub_exact :: "double \<Rightarrow> double \<Rightarrow> double" where
  "d_sub_exact NaN y = NaN"
| "d_sub_exact x NaN = NaN"
| "d_sub_exact PInf PInf = NaN"
| "d_sub_exact NInf NInf = NaN"
| "d_sub_exact PInf y = PInf"
| "d_sub_exact NInf y = NInf"
| "d_sub_exact (Fin a) PInf = NInf"
| "d_sub_exact (Fin a) NInf = PInf"
| "d_sub_exact (Fin a) (Fin b) = Fin (a - b)"

fun d_div_exact :: "double \<Rightarrow> double \<Rightarrow> double" where
  "d_div_exact NaN y = NaN"
| "d_div_exact x NaN = NaN"
| "d_div_exact (Fin a) (Fin b) =
     (if b \<noteq> 0 then Fin (a / b)
      else if a = 0 then NaN else if 0 < a then PInf else NInf)"
| "d_div_exact (Fin a) y = Fin 0"
| "d_div_exact PInf (Fin b) = (if b < 0 then NInf else PInf)"
| "d_div_exact NInf (Fin b) = (if b < 0 then PInf else NInf)"
| "d_div_exact x y = NaN"

subsection \<open>The data\<close>

type_synonym int64 = "64 word"
type_synonym uint64 = "64 word"

text \<open>
  \<^verbatim>\<open>struct PriceLevel\<close>. The field \<^verbatim>\<open>size\<close> is an \<^verbatim>\<open>int64_t\<close>: a 64-bit word
  read in two's complement by \<open>sint\<close>. It is called \<open>size_q\<close> here, \<open>size\<close>
  being a constant of HOL.
\<close>

record PriceLevel =
  price :: double
  size_q :: int64
  timestamp_ns :: uint64
  valid :: bool

text \<open>The default constructor \<^verbatim>\<open>PriceLevel()\<close>.\<close>

definition PriceLevel_init :: PriceLevel where
  "PriceLevel_init = \<lparr>price = Fin 0, size_q = 0, timestamp_ns = 0, valid = False\<rparr>"

text \<open>
  The class, with its two private arrays \<^verbatim>\<open>bids_\<close> and \<^verbatim>\<open>asks_\<close> of
  \<^verbatim>\<open>MaxLevels\<close> slots each (\<open>bids\<close> and \<open>asks\<close> here).
\<close>

record LockFreeOrderBook =
  bids :: "PriceLevel list"
  asks :: "PriceLevel list"

text \<open>
  The constructor: both arrays hold \<^verbatim>\<open>MaxLevels\<close> default-constructed levels, and the
  two loops store \<^verbatim>\<open>false\<close> into every \<^verbatim>\<open>valid\<close>.
\<close>

definition new_book :: "nat \<Rightarrow> LockFreeOrderBook" where
  "new_book MaxLevels =
     \<lparr>bids = map (\<lambda>level. level\<lparr>valid := False\<rparr>) (replicate MaxLevels PriceLevel_init),
      asks = map (\<lambda>level. level\<lparr>valid := False\<rparr>) (replicate MaxLevels PriceLevel_init)\<rparr>"

subsection \<open>\<^verbatim>\<open>update_level\<close>\<close>

text \<open>
  \<^verbatim>\<open>valid.compare_exchange_strong(expected, desired)\<close> on an atomic that holds
  \<open>cur\<close>: whether the exchange happened, and what the atomic holds afterwards.
\<close>

definition compare_exchange_strong :: "bool \<Rightarrow> bool \<Rightarrow> bool \<Rightarrow> bool \<times> bool" where
  "compare_exchange_strong cur expected desired =
     (if cur = expected then (True, desired) else (False, cur))"

text \<open>
  One iteration of the loop of \<^verbatim>\<open>update_level\<close> on the slot \<open>level\<close>. The result
  is \<open>Some\<close> of the slot as the iteration leaves it when the iteration returns
  \<^verbatim>\<open>true\<close>, and \<open>None\<close> when the loop goes on to the next slot (the slot is then
  unchanged).
\<close>

definition update_slot ::
  "PriceLevel \<Rightarrow> double \<Rightarrow> int64 \<Rightarrow> uint64 \<Rightarrow> PriceLevel option" where
  "update_slot level p s t =
     (let (acquired, v) =
            (if valid level = False then compare_exchange_strong (valid level) False True
             else (False, valid level))
      in if acquired then
           Some (level\<lparr>valid := v, price := p, size_q := s, timestamp_ns := t\<rparr>)
         else if d_eq (price level) p then
           (if s = 0 then Some (level\<lparr>valid := False\<rparr>)
            else Some (level\<lparr>size_q := s, timestamp_ns := t\<rparr>))
         else None)"

text \<open>
  The loop over the array, from index 0. The result is the value returned and the array
  as the call leaves it.
\<close>

fun update_level ::
  "PriceLevel list \<Rightarrow> double \<Rightarrow> int64 \<Rightarrow> uint64 \<Rightarrow> bool \<times> PriceLevel list" where
  "update_level [] p s t = (False, [])"
| "update_level (level # levels) p s t =
     (case update_slot level p s t of
        Some level' \<Rightarrow> (True, level' # levels)
      | None \<Rightarrow>
          (case update_level levels p s t of (r, levels') \<Rightarrow> (r, level # levels')))"

definition update_bid ::
  "LockFreeOrderBook \<Rightarrow> double \<Rightarrow> int64 \<Rightarrow> uint64 \<Rightarrow> bool \<times> LockFreeOrderBook" where
  "update_bid b p s t =
     (case update_level (bids b) p s t of (r, levels') \<Rightarrow> (r, b\<lparr>bids := levels'\<rparr>))"

definition update_ask ::
  "LockFreeOrderBook \<Rightarrow> double \<Rightarrow> int64 \<Rightarrow> uint64 \<Rightarrow> bool \<times> LockFreeOrderBook" where
  "update_ask b p s t =
     (case update_level (asks b) p s t of (r, levels') \<Rightarrow> (r, b\<lparr>asks := levels'\<rparr>))"

subsection \<open>The queries\<close>

text \<open>
  The loops of \<^verbatim>\<open>get_best_bid\<close> and \<^verbatim>\<open>get_best_ask\<close>, with their two local
  variables \<^verbatim>\<open>best_price\<close> and \<^verbatim>\<open>best_level\<close>. The pointer \<^verbatim>\<open>best_level\<close>
  is \<open>None\<close> for \<^verbatim>\<open>nullptr\<close> and otherwise the slot it points to, which no query
  changes.
\<close>

fun best_bid_loop ::
  "PriceLevel list \<Rightarrow> double \<Rightarrow> PriceLevel option \<Rightarrow> PriceLevel option" where
  "best_bid_loop [] best_price best_level = best_level"
| "best_bid_loop (level # levels) best_price best_level =
     (if valid level \<and> d_gt (price level) best_price
      then best_bid_loop levels (price level) (Some level)
      else best_bid_loop levels best_price best_level)"

fun best_ask_loop ::
  "PriceLevel list \<Rightarrow> double \<Rightarrow> PriceLevel option \<Rightarrow> PriceLevel option" where
  "best_ask_loop [] best_price best_level = best_level"
| "best_ask_loop (level # levels) best_price best_level =
     (if valid level \<and> d_lt (price level) best_price
      then best_ask_loop levels (price level) (Some level)
      else best_ask_loop levels best_price best_level)"

definition get_best_bid :: "LockFreeOrderBook \<Rightarrow> PriceLevel option" where
  "get_best_bid b = best_bid_loop (bids b) (Fin 0) None"

definition get_best_ask :: "LockFreeOrderBook \<Rightarrow> PriceLevel option" where
  "get_best_ask b = best_ask_loop (asks b) DBL_MAX None"

text \<open>
  The aggregate helpers. Rounding to binary64 is not available in the libraries this
  theory builds on, so the three arithmetic operations of the helpers are parameters:
  \<open>fadd\<close>, \<open>fsub\<close> and \<open>fdiv\<close> stand for \<^verbatim>\<open>+\<close>, \<^verbatim>\<open>-\<close> and \<^verbatim>\<open>/\<close> on
  \<^verbatim>\<open>double\<close>, whatever they round to.
\<close>

definition get_mid_price ::
  "(double \<Rightarrow> double \<Rightarrow> double) \<Rightarrow> (double \<Rightarrow> double \<Rightarrow> double) \<Rightarrow>
   LockFreeOrderBook \<Rightarrow> double option" where
  "get_mid_price fadd fdiv b =
     (let bid = get_best_bid b; ask = get_best_ask b
      in case (bid, ask) of
           (Some bid_level, Some ask_level) \<Rightarrow>
             Some (fdiv (fadd (price bid_level) (price ask_level)) (Fin 2))
         | _ \<Rightarrow> None)"

definition get_spread ::
  "(double \<Rightarrow> double \<Rightarrow> double) \<Rightarrow> LockFreeOrderBook \<Rightarrow> double option" where
  "get_spread fsub b =
     (let bid = get_best_bid b; ask = get_best_ask b
      in case (bid, ask) of
           (Some bid_level, Some ask_level) \<Rightarrow>
             Some (fsub (price ask_level) (price bid_level))
         | _ \<Rightarrow> None)"

subsection \<open>Sequences of calls\<close>

datatype call = UpdateBid double int64 uint64 | UpdateAsk double int64 uint64

fun exec :: "LockFreeOrderBook \<Rightarrow> call \<Rightarrow> bool \<times> LockFreeOrderBook" where
  "exec b (UpdateBid p s t) = update_bid b p s t"
| "exec b (UpdateAsk p s t) = update_ask b p s t"

text \<open>The book after a sequence of updates, and the values the updates returned.\<close>

fun run :: "LockFreeOrderBook \<Rightarrow> call list \<Rightarrow> LockFreeOrderBook" where
  "run b [] = b"
| "run b (c # cs) = run (snd (exec b c)) cs"

fun returned :: "LockFreeOrderBook \<Rightarrow> call list \<Rightarrow> bool list" where
  "returned b [] = []"
| "returned b (c # cs) = fst (exec b c) # returned (snd (exec b c)) cs"

text \<open>
  Updates of one side only, given as triples (price, size, timestamp): the calls they
  stand for, the array after them, and the values they return.
\<close>

fun bid_call :: "double \<times> int64 \<times> uint64 \<Rightarrow> call" where
  "bid_call (p, s, t) = UpdateBid p s t"

fun ask_call :: "double \<times> int64 \<times> uint64 \<Rightarrow> call" where
  "ask_call (p, s, t) = UpdateAsk p s t"

fun updates ::
  "PriceLevel list \<Rightarrow> (double \<times> int64 \<times> uint64) list \<Rightarrow> PriceLevel list" where
  "updates levels [] = levels"
| "updates levels ((p, s, t) # xs) = updates (snd (update_level levels p s t)) xs"

fun updates_returned ::
  "PriceLevel list \<Rightarrow> (double \<times> int64 \<times> uint64) list \<Rightarrow> bool list" where
  "updates_returned levels [] = []"
| "updates_returned levels ((p, s, t) # xs) =
     fst (update_level levels p s t) # updates_returned (snd (update_level levels p s t)) xs"

subsection \<open>Predicates on arrays and calls\<close>

text \<open>Prices that are pairwise different under \<^verbatim>\<open>==\<close>.\<close>

fun distinct_prices :: "double list \<Rightarrow> bool" where
  "distinct_prices [] = True"
| "distinct_prices (p # ps) = (list_all (\<lambda>q. \<not> d_eq p q) ps \<and> distinct_prices ps)"

text \<open>The slot that holds the level (price, size, timestamp).\<close>

fun level_of :: "double \<times> int64 \<times> uint64 \<Rightarrow> PriceLevel" where
  "level_of (p, s, t) = \<lparr>price = p, size_q = s, timestamp_ns = t, valid = True\<rparr>"

text \<open>Some valid slot of the array holds the price \<open>p\<close> (under \<^verbatim>\<open>==\<close>).\<close>

definition holds_price :: "PriceLevel list \<Rightarrow> double \<Rightarrow> bool" where
  "holds_price levels p = list_ex (\<lambda>level. valid level \<and> d_eq (price level) p) levels"

text \<open>The call is an update of the bid side at the price \<open>p\<close>.\<close>

fun touches_bid :: "double \<Rightarrow> call \<Rightarrow> bool" where
  "touches_bid p (UpdateBid q s t) = d_eq q p"
| "touches_bid p (UpdateAsk q s t) = False"

text \<open>Every valid slot of the array has a size above 0.\<close>

definition sizes_positive :: "PriceLevel list \<Rightarrow> bool" where
  "sizes_positive levels = list_all (\<lambda>level. valid level \<longrightarrow> 0 < sint (size_q level)) levels"

text \<open>
  The loop of \<open>update_level\<close>, called with the price \<open>p\<close>, comes to a free slot before
  it comes to a valid slot that holds \<open>p\<close>: the update claims that free slot.
\<close>

fun lands_on_free :: "PriceLevel list \<Rightarrow> double \<Rightarrow> bool" where
  "lands_on_free [] p = False"
| "lands_on_free (level # levels) p =
     (\<not> valid level \<or> \<not> d_eq (price level) p \<and> lands_on_free levels p)"

text \<open>
  An update that publishes a size above 0, or one of size 0 that does not claim a free
  slot; and a sequence of such updates, each judged in the book it is applied to.
\<close>

fun publishes_or_withdraws :: "LockFreeOrderBook \<Rightarrow> call \<Rightarrow> bool" where
  "publishes_or_withdraws b (UpdateBid p s t) =
     (0 < sint s \<or> s = 0 \<and> \<not> lands_on_free (bids b) p)"
| "publishes_or_withdraws b (UpdateAsk p s t) =
     (0 < sint s \<or> s = 0 \<and> \<not> lands_on_free (asks b) p)"

fun all_publish_or_withdraw :: "LockFreeOrderBook \<Rightarrow> call list \<Rightarrow> bool" where
  "all_publish_or_withdraw b [] = True"
| "all_publish_or_withdraw b (c # cs) =
     (publishes_or_withdraws b c \<and> all_publish_or_withdraw (snd (exec b c)) cs)"

section \<open>Basic facts\<close>

lemma update_slot_simps:
  "update_slot level p s t =
     (if \<not> valid level then Some (level\<lparr>valid := True, price := p, size_q := s, timestamp_ns := t\<rparr>)
      else if d_eq (price level) p then
        (if s = 0 then Some (level\<lparr>valid := False\<rparr>)
         else Some (level\<lparr>size_q := s, timestamp_ns := t\<rparr>))
      else None)"
  by (simp add: update_slot_def compare_exchange_strong_def)

text \<open>One step of the loop of \<open>update_level\<close>, with the compare-exchange resolved.\<close>

lemma update_level_Cons:
  "update_level (level # levels) p s t =
     (if \<not> valid level
      then (True, level\<lparr>valid := True, price := p, size_q := s, timestamp_ns := t\<rparr> # levels)
      else if d_eq (price level) p
      then (True, (if s = 0 then level\<lparr>valid := False\<rparr>
                   else level\<lparr>size_q := s, timestamp_ns := t\<rparr>) # levels)
      else (fst (update_level levels p s t), level # snd (update_level levels p s t)))"
  by (simp add: update_slot_simps split: prod.splits)

declare update_level.simps(2) [simp del]
declare update_level_Cons [simp]

lemma update_level_False_iff:
  "fst (update_level levels p s t) = False \<longleftrightarrow>
     (\<forall>level\<in>set levels. valid level \<and> \<not> d_eq (price level) p)"
  by (induction levels) auto

lemma update_level_False_same:
  "\<not> fst (update_level levels p s t) \<Longrightarrow> snd (update_level levels p s t) = levels"
  by (induction levels) (auto split: if_splits)

lemma length_update_level [simp]:
  "length (snd (update_level levels p s t)) = length levels"
  by (induction levels) auto

lemma fst_update_bid: "fst (update_bid b p s t) = fst (update_level (bids b) p s t)"
  by (simp add: update_bid_def split: prod.splits)

lemma snd_update_bid:
  "snd (update_bid b p s t) = b\<lparr>bids := snd (update_level (bids b) p s t)\<rparr>"
  by (simp add: update_bid_def split: prod.splits)

lemma fst_update_ask: "fst (update_ask b p s t) = fst (update_level (asks b) p s t)"
  by (simp add: update_ask_def split: prod.splits)

lemma snd_update_ask:
  "snd (update_ask b p s t) = b\<lparr>asks := snd (update_level (asks b) p s t)\<rparr>"
  by (simp add: update_ask_def split: prod.splits)

text \<open>The comparisons of \<open>double\<close>.\<close>

lemma d_lt_trans: "d_lt x y \<Longrightarrow> d_lt y z \<Longrightarrow> d_lt x z"
  by (cases x; cases y; cases z) auto

lemma d_lt_irrefl [simp]: "\<not> d_lt x x"
  by (cases x) auto

lemma d_lt_asym: "d_lt x y \<Longrightarrow> \<not> d_lt y x"
  by (cases x; cases y) auto

lemma d_total: "x \<noteq> NaN \<Longrightarrow> y \<noteq> NaN \<Longrightarrow> d_lt x y \<or> x = y \<or> d_lt y x"
  by (cases x; cases y) auto

lemma d_lt_not_NaN: "d_lt x y \<Longrightarrow> x \<noteq> NaN \<and> y \<noteq> NaN"
  by (cases x; cases y) auto

lemma update_bid_eq:
  "update_bid b p s t =
     (fst (update_level (bids b) p s t), b\<lparr>bids := snd (update_level (bids b) p s t)\<rparr>)"
  by (simp add: update_bid_def split: prod.splits)

lemma update_ask_eq:
  "update_ask b p s t =
     (fst (update_level (asks b) p s t), b\<lparr>asks := snd (update_level (asks b) p s t)\<rparr>)"
  by (simp add: update_ask_def split: prod.splits)

text \<open>A valid slot that holds a price.\<close>

lemma holds_price_Cons [simp]:
  "holds_price (level # levels) p \<longleftrightarrow> valid level \<and> d_eq (price level) p \<or> holds_price levels p"
  by (simp add: holds_price_def)

lemma holds_price_Nil [simp]: "\<not> holds_price [] p"
  by (simp add: holds_price_def)

lemma holds_price_iff:
  "holds_price levels p \<longleftrightarrow> (\<exists>level\<in>set levels. valid level \<and> d_eq (price level) p)"
  by (simp add: holds_price_def list_ex_iff)

lemma d_eq_same: "d_eq x p \<Longrightarrow> d_eq x q \<Longrightarrow> d_eq q p"
  by (auto simp: d_eq_def)

text \<open>The loops of the two queries.\<close>

lemma best_bid_loop_None_iff:
  "best_bid_loop levels bp bl = None \<longleftrightarrow>
     bl = None \<and> (\<forall>level\<in>set levels. valid level \<longrightarrow> \<not> d_gt (price level) bp)"
  by (induction levels arbitrary: bp bl) auto

lemma best_bid_loop_Some:
  "best_bid_loop levels bp bl = Some r \<Longrightarrow>
     bl = Some r \<or> r \<in> set levels \<and> valid r \<and> d_gt (price r) bp"
proof (induction levels arbitrary: bp bl)
  case Nil
  then show ?case by simp
next
  case (Cons level levels)
  show ?case
  proof (cases "valid level \<and> d_gt (price level) bp")
    case True
    with Cons.prems have "best_bid_loop levels (price level) (Some level) = Some r" by simp
    from Cons.IH [OF this] True show ?thesis
      unfolding d_gt_def by (auto intro: d_lt_trans)
  next
    case False
    with Cons.prems have "best_bid_loop levels bp bl = Some r" by auto
    from Cons.IH [OF this] show ?thesis by auto
  qed
qed

lemma best_bid_loop_max:
  "best_bid_loop levels bp bl = Some r \<Longrightarrow> (\<forall>x. bl = Some x \<longrightarrow> price x = bp) \<Longrightarrow>
     (price r = bp \<or> d_gt (price r) bp) \<and>
     (\<forall>level\<in>set levels. valid level \<longrightarrow> \<not> d_gt (price level) (price r))"
proof (induction levels arbitrary: bp bl)
  case Nil
  then show ?case by simp
next
  case (Cons level levels)
  show ?case
  proof (cases "valid level \<and> d_gt (price level) bp")
    case True
    with Cons.prems have "best_bid_loop levels (price level) (Some level) = Some r" by simp
    from Cons.IH [OF this] True show ?thesis
      unfolding d_gt_def by (auto intro: d_lt_trans dest: d_lt_asym)
  next
    case False
    with Cons.prems have "best_bid_loop levels bp bl = Some r" by auto
    from Cons.IH [OF this Cons.prems(2)] False show ?thesis
      unfolding d_gt_def by (auto intro: d_lt_trans)
  qed
qed

lemma best_ask_loop_None_iff:
  "best_ask_loop levels bp bl = None \<longleftrightarrow>
     bl = None \<and> (\<forall>level\<in>set levels. valid level \<longrightarrow> \<not> d_lt (price level) bp)"
  by (induction levels arbitrary: bp bl) auto

lemma best_ask_loop_Some:
  "best_ask_loop levels bp bl = Some r \<Longrightarrow>
     bl = Some r \<or> r \<in> set levels \<and> valid r \<and> d_lt (price r) bp"
proof (induction levels arbitrary: bp bl)
  case Nil
  then show ?case by simp
next
  case (Cons level levels)
  show ?case
  proof (cases "valid level \<and> d_lt (price level) bp")
    case True
    with Cons.prems have "best_ask_loop levels (price level) (Some level) = Some r" by simp
    from Cons.IH [OF this] True show ?thesis
      by (auto intro: d_lt_trans)
  next
    case False
    with Cons.prems have "best_ask_loop levels bp bl = Some r" by auto
    from Cons.IH [OF this] show ?thesis by auto
  qed
qed

lemma best_ask_loop_min:
  "best_ask_loop levels bp bl = Some r \<Longrightarrow> (\<forall>x. bl = Some x \<longrightarrow> price x = bp) \<Longrightarrow>
     (price r = bp \<or> d_lt (price r) bp) \<and>
     (\<forall>level\<in>set levels. valid level \<longrightarrow> \<not> d_lt (price level) (price r))"
proof (induction levels arbitrary: bp bl)
  case Nil
  then show ?case by simp
next
  case (Cons level levels)
  show ?case
  proof (cases "valid level \<and> d_lt (price level) bp")
    case True
    with Cons.prems have "best_ask_loop levels (price level) (Some level) = Some r" by simp
    from Cons.IH [OF this] True show ?thesis
      by (auto intro: d_lt_trans dest: d_lt_asym)
  next
    case False
    with Cons.prems have "best_ask_loop levels bp bl = Some r" by auto
    from Cons.IH [OF this Cons.prems(2)] False show ?thesis
      by (auto intro: d_lt_trans)
  qed
qed

lemma best_bid_loop_keeps:
  "\<forall>level\<in>set levels. valid level \<longrightarrow> \<not> d_gt (price level) bp \<Longrightarrow>
   best_bid_loop levels bp bl = bl"
  by (induction levels) auto

text \<open>The facts that evaluate a concrete run.\<close>

lemmas run_eval =
  new_book_def PriceLevel_init_def update_bid_def update_ask_def
  get_best_bid_def get_best_ask_def d_gt_def d_eq_def d_ge_def DBL_MAX_def
  eval_nat_numeral

section \<open>C1: withdrawal\<close>

text \<open>
  Claim C1. After \<^verbatim>\<open>update_bid(p, 0, t)\<close> has returned, no \<^verbatim>\<open>get_best_bid\<close> returns a
  snapshot with price \<open>p\<close> until a later \<^verbatim>\<open>update_bid(p, s, t')\<close> with \<open>s > 0\<close>,
  whatever updates at other prices come in between. The code does not keep this: the
  loop of \<^verbatim>\<open>update_level\<close> claims the first free slot it meets, also when the size is
  0 and also when a later slot holds the price. Below, in a book of two slots the bids
  100 and 99 are published and 100 is withdrawn, which frees slot 0; the withdrawal of
  99 then claims slot 0 for the price 99 with size 0, returns \<^verbatim>\<open>true\<close>, and
  \<^verbatim>\<open>get_best_bid\<close> returns the price 99. In a new book, the withdrawal of the price 100
  alone makes \<^verbatim>\<open>get_best_bid\<close> return the price 100.
\<close>

theorem withdrawal_leaves_price_visible:
  "fst (update_bid (run (new_book 2)
          [UpdateBid (Fin 100) 10 1, UpdateBid (Fin 99) 5 2, UpdateBid (Fin 100) 0 3])
        (Fin 99) 0 4) = True \<and>
   bids (snd (update_bid (run (new_book 2)
          [UpdateBid (Fin 100) 10 1, UpdateBid (Fin 99) 5 2, UpdateBid (Fin 100) 0 3])
        (Fin 99) 0 4)) =
     [\<lparr>price = Fin 99, size_q = 0, timestamp_ns = 4, valid = True\<rparr>,
      \<lparr>price = Fin 99, size_q = 5, timestamp_ns = 2, valid = True\<rparr>] \<and>
   get_best_bid (snd (update_bid (run (new_book 2)
          [UpdateBid (Fin 100) 10 1, UpdateBid (Fin 99) 5 2, UpdateBid (Fin 100) 0 3])
        (Fin 99) 0 4)) =
     Some \<lparr>price = Fin 99, size_q = 0, timestamp_ns = 4, valid = True\<rparr> \<and>
   fst (update_bid (new_book 2) (Fin 100) 0 1) = True \<and>
   get_best_bid (snd (update_bid (new_book 2) (Fin 100) 0 1)) =
     Some \<lparr>price = Fin 100, size_q = 0, timestamp_ns = 1, valid = True\<rparr>"
  by (simp add: run_eval)

section \<open>C2: one slot per price\<close>

text \<open>
  Claim C2. In every book reached from a new one by calls of \<^verbatim>\<open>update_bid\<close> and
  \<^verbatim>\<open>update_ask\<close>, the valid slots of a side hold pairwise different prices. The code
  does not keep this: once a withdrawal has freed a slot in front of a valid slot, an
  update at the price of that valid slot claims the free slot instead of overwriting
  the level. Below, the bids 100 and 99 are published, 100 is withdrawn, and 99 is
  published again with the size 7: both slots are then valid at the price 99.
\<close>

theorem update_duplicates_price:
  "returned (new_book 2)
     [UpdateBid (Fin 100) 10 1, UpdateBid (Fin 99) 5 2, UpdateBid (Fin 100) 0 3,
      UpdateBid (Fin 99) 7 4] = [True, True, True, True] \<and>
   bids (run (new_book 2)
     [UpdateBid (Fin 100) 10 1, UpdateBid (Fin 99) 5 2, UpdateBid (Fin 100) 0 3,
      UpdateBid (Fin 99) 7 4]) =
     [\<lparr>price = Fin 99, size_q = 7, timestamp_ns = 4, valid = True\<rparr>,
      \<lparr>price = Fin 99, size_q = 5, timestamp_ns = 2, valid = True\<rparr>]"
  by (simp add: run_eval)

section \<open>C3: sizes of valid slots\<close>

lemma sizes_positive_simps [simp]:
  "sizes_positive []"
  "sizes_positive (level # levels) \<longleftrightarrow>
     (valid level \<longrightarrow> 0 < sint (size_q level)) \<and> sizes_positive levels"
  by (simp_all add: sizes_positive_def)

lemma update_level_sizes_positive:
  "sizes_positive levels \<Longrightarrow> 0 < sint s \<or> s = 0 \<and> \<not> lands_on_free levels p \<Longrightarrow>
   sizes_positive (snd (update_level levels p s t))"
  by (induction levels) auto

lemma exec_sizes_positive:
  "sizes_positive (bids b) \<and> sizes_positive (asks b) \<Longrightarrow> publishes_or_withdraws b c \<Longrightarrow>
   sizes_positive (bids (snd (exec b c))) \<and> sizes_positive (asks (snd (exec b c)))"
  by (cases c) (auto simp: snd_update_bid snd_update_ask update_level_sizes_positive)

lemma run_sizes_positive:
  "sizes_positive (bids b) \<and> sizes_positive (asks b) \<Longrightarrow> all_publish_or_withdraw b cs \<Longrightarrow>
   sizes_positive (bids (run b cs)) \<and> sizes_positive (asks (run b cs))"
proof (induction cs arbitrary: b)
  case Nil
  then show ?case by simp
next
  case (Cons c cs)
  from Cons.prems have "publishes_or_withdraws b c" and rest: "all_publish_or_withdraw (snd (exec b c)) cs"
    by simp_all
  from exec_sizes_positive [OF Cons.prems(1) \<open>publishes_or_withdraws b c\<close>]
  have "sizes_positive (bids (snd (exec b c))) \<and> sizes_positive (asks (snd (exec b c)))" .
  from Cons.IH [OF this rest] show ?case by simp
qed

lemma new_book_sizes_positive:
  "sizes_positive (bids (new_book N)) \<and> sizes_positive (asks (new_book N))"
  by (simp add: new_book_def sizes_positive_def list_all_iff)

text \<open>
  Claim C3, as the code has it. In every book reached from a new one by updates of a
  size above 0 and by updates of size 0 that do not claim a free slot (they invalidate
  the valid slot that holds their price, or are refused), every valid slot has a size
  above 0.
\<close>

theorem valid_sizes_positive:
  "all_publish_or_withdraw (new_book N) cs \<Longrightarrow>
   sizes_positive (bids (run (new_book N) cs)) \<and> sizes_positive (asks (run (new_book N) cs))"
  by (rule run_sizes_positive [OF new_book_sizes_positive])

text \<open>
  Two publications, the withdrawal of the bid at 100, and a publication that takes the
  freed slot.
\<close>

theorem valid_sizes_positive_witness:
  "all_publish_or_withdraw (new_book 2)
     [UpdateBid (Fin 100) 10 1, UpdateAsk (Fin 101) 8 2, UpdateBid (Fin 100) 0 3,
      UpdateBid (Fin 99) 5 4] \<and>
   sizes_positive (bids (run (new_book 2)
     [UpdateBid (Fin 100) 10 1, UpdateAsk (Fin 101) 8 2, UpdateBid (Fin 100) 0 3,
      UpdateBid (Fin 99) 5 4])) \<and>
   sizes_positive (asks (run (new_book 2)
     [UpdateBid (Fin 100) 10 1, UpdateAsk (Fin 101) 8 2, UpdateBid (Fin 100) 0 3,
      UpdateBid (Fin 99) 5 4]))"
proof -
  let ?cs = "[UpdateBid (Fin 100) 10 1, UpdateAsk (Fin 101) 8 2, UpdateBid (Fin 100) 0 3,
      UpdateBid (Fin 99) 5 4]"
  have a: "all_publish_or_withdraw (new_book 2) ?cs"
    by (simp add: run_eval)
  from valid_sizes_positive [OF a] a show ?thesis by blast
qed

text \<open>
  The claim as the specification states it (after any sequence of updates) fails:
  \<^verbatim>\<open>update_level\<close> never looks at the sign of the size, so an update of size \<open>-5\<close>
  leaves a valid slot of size \<open>-5\<close>; and an update of size 0 that claims a free slot
  leaves a valid slot of size 0.
\<close>

theorem valid_sizes_positive_counterexample:
  "bids (run (new_book 1) [UpdateBid (Fin 100) (- 5) 1]) =
     [\<lparr>price = Fin 100, size_q = - 5, timestamp_ns = 1, valid = True\<rparr>] \<and>
   sint (- 5 :: int64) = - 5 \<and>
   \<not> sizes_positive (bids (run (new_book 1) [UpdateBid (Fin 100) (- 5) 1])) \<and>
   bids (run (new_book 1) [UpdateBid (Fin 100) 0 1]) =
     [\<lparr>price = Fin 100, size_q = 0, timestamp_ns = 1, valid = True\<rparr>] \<and>
   \<not> sizes_positive (bids (run (new_book 1) [UpdateBid (Fin 100) 0 1]))"
  by (simp add: run_eval)

section \<open>C4: when an update is refused\<close>

lemma bids_run_bid_calls: "bids (run b (map bid_call xs)) = updates (bids b) xs"
  by (induction xs arbitrary: b) (auto simp: snd_update_bid)

lemma asks_run_ask_calls: "asks (run b (map ask_call xs)) = updates (asks b) xs"
  by (induction xs arbitrary: b) (auto simp: snd_update_ask)

lemma returned_bid_calls: "returned b (map bid_call xs) = updates_returned (bids b) xs"
  by (induction xs arbitrary: b) (auto simp: snd_update_bid fst_update_bid)

lemma returned_ask_calls: "returned b (map ask_call xs) = updates_returned (asks b) xs"
  by (induction xs arbitrary: b) (auto simp: snd_update_ask fst_update_ask)

lemma update_level_claims_next:
  "\<forall>y\<in>set ys. \<not> d_eq (fst y) p \<Longrightarrow>
   update_level (map level_of ys @ replicate (Suc m) PriceLevel_init) p s t =
     (True, map level_of (ys @ [(p, s, t)]) @ replicate m PriceLevel_init)"
  by (induction ys) (auto simp: PriceLevel_init_def)

lemma distinct_prices_append:
  "distinct_prices (ps @ qs) \<Longrightarrow> p \<in> set ps \<Longrightarrow> q \<in> set qs \<Longrightarrow> \<not> d_eq p q"
  by (induction ps) (auto simp: list_all_iff)

lemma updates_fill:
  "distinct_prices (map fst (ys @ xs)) \<Longrightarrow> length xs \<le> m \<Longrightarrow>
   updates (map level_of ys @ replicate m PriceLevel_init) xs =
     map level_of (ys @ xs) @ replicate (m - length xs) PriceLevel_init \<and>
   updates_returned (map level_of ys @ replicate m PriceLevel_init) xs =
     replicate (length xs) True"
proof (induction xs arbitrary: ys m)
  case Nil
  then show ?case by simp
next
  case (Cons x xs)
  obtain p s t where x: "x = (p, s, t)" by (cases x)
  from Cons.prems obtain m' where m: "m = Suc m'" by (cases m) auto
  have d: "distinct_prices (map fst ((ys @ [x]) @ xs))"
    using Cons.prems(1) by simp
  have novel: "\<forall>y\<in>set ys. \<not> d_eq (fst y) p"
    using distinct_prices_append [of "map fst ys" "map fst (x # xs)" _ p] Cons.prems(1)
    by (auto simp: x)
  have step: "update_level (map level_of ys @ replicate m PriceLevel_init) p s t =
     (True, map level_of (ys @ [x]) @ replicate m' PriceLevel_init)"
    unfolding m x by (rule update_level_claims_next [OF novel])
  have u: "updates (map level_of ys @ replicate m PriceLevel_init) (x # xs) =
      updates (map level_of (ys @ [x]) @ replicate m' PriceLevel_init) xs"
    unfolding x updates.simps step [unfolded x] snd_conv ..
  have r: "updates_returned (map level_of ys @ replicate m PriceLevel_init) (x # xs) =
      True # updates_returned (map level_of (ys @ [x]) @ replicate m' PriceLevel_init) xs"
    unfolding x updates_returned.simps step [unfolded x] snd_conv fst_conv ..
  from Cons.prems(2) m have len: "length xs \<le> m'" by simp
  from Cons.IH [OF d len] m show ?case
    unfolding u r by simp
qed

lemma new_book_sides:
  "bids (new_book N) = replicate N PriceLevel_init"
  "asks (new_book N) = replicate N PriceLevel_init"
  by (simp_all add: new_book_def PriceLevel_init_def)

lemma set_level_of:
  "(\<forall>level\<in>set (map level_of xs). valid level \<and> \<not> d_eq (price level) p) \<longleftrightarrow>
   (\<forall>x\<in>set xs. \<not> d_eq (fst x) p)"
  by (induction xs) auto

lemma updates_fresh:
  assumes "distinct_prices (map fst xs)"
  shows "updates (replicate (length xs) PriceLevel_init) xs = map level_of xs"
    and "updates_returned (replicate (length xs) PriceLevel_init) xs = replicate (length xs) True"
  using updates_fill [of "[]" xs "length xs"] assms by simp_all

text \<open>
  Claim C4. \<^verbatim>\<open>update_bid(p, s, t)\<close> returns \<^verbatim>\<open>false\<close> if and only if every bid
  slot is valid and none holds the price \<open>p\<close> (under \<^verbatim>\<open>==\<close>); so for \<^verbatim>\<open>update_ask\<close>
  and the ask slots. In particular, \<open>N\<close> updates at \<open>N\<close> pairwise different prices on
  one side of a new book of \<open>N\<close> slots per side all return \<^verbatim>\<open>true\<close>, and the next
  update of that side returns \<^verbatim>\<open>false\<close> if and only if its price is none of
  theirs: a new price is refused, a repeated one accepted.
\<close>

theorem update_refused_iff_full_and_novel:
  "(fst (update_bid b p s t) = False \<longleftrightarrow>
      (\<forall>level\<in>set (bids b). valid level \<and> \<not> d_eq (price level) p)) \<and>
   (fst (update_ask b p s t) = False \<longleftrightarrow>
      (\<forall>level\<in>set (asks b). valid level \<and> \<not> d_eq (price level) p)) \<and>
   (length xs = N \<and> distinct_prices (map fst xs) \<longrightarrow>
      returned (new_book N) (map bid_call xs) = replicate N True \<and>
      (fst (update_bid (run (new_book N) (map bid_call xs)) p s t) = False \<longleftrightarrow>
         (\<forall>x\<in>set xs. \<not> d_eq (fst x) p)) \<and>
      returned (new_book N) (map ask_call xs) = replicate N True \<and>
      (fst (update_ask (run (new_book N) (map ask_call xs)) p s t) = False \<longleftrightarrow>
         (\<forall>x\<in>set xs. \<not> d_eq (fst x) p)))"
proof (intro conjI impI)
  show "fst (update_bid b p s t) = False \<longleftrightarrow>
      (\<forall>level\<in>set (bids b). valid level \<and> \<not> d_eq (price level) p)"
    unfolding fst_update_bid by (rule update_level_False_iff)
  show "fst (update_ask b p s t) = False \<longleftrightarrow>
      (\<forall>level\<in>set (asks b). valid level \<and> \<not> d_eq (price level) p)"
    unfolding fst_update_ask by (rule update_level_False_iff)
next
  assume a: "length xs = N \<and> distinct_prices (map fst xs)"
  then have N: "N = length xs" and d: "distinct_prices (map fst xs)" by auto
  show "returned (new_book N) (map bid_call xs) = replicate N True"
    unfolding returned_bid_calls new_book_sides N by (rule updates_fresh(2) [OF d])
  show "returned (new_book N) (map ask_call xs) = replicate N True"
    unfolding returned_ask_calls new_book_sides N by (rule updates_fresh(2) [OF d])
  show "fst (update_bid (run (new_book N) (map bid_call xs)) p s t) = False \<longleftrightarrow>
         (\<forall>x\<in>set xs. \<not> d_eq (fst x) p)"
    unfolding fst_update_bid bids_run_bid_calls new_book_sides N updates_fresh(1) [OF d]
      update_level_False_iff by (rule set_level_of)
  show "fst (update_ask (run (new_book N) (map ask_call xs)) p s t) = False \<longleftrightarrow>
         (\<forall>x\<in>set xs. \<not> d_eq (fst x) p)"
    unfolding fst_update_ask asks_run_ask_calls new_book_sides N updates_fresh(1) [OF d]
      update_level_False_iff by (rule set_level_of)
qed

text \<open>
  Two slots, filled with the bids 100 and 99: a bid at 98 is refused, a bid at 99 is
  accepted.
\<close>

theorem update_refused_iff_full_and_novel_witness:
  "returned (new_book 2) (map bid_call [(Fin 100, 10, 1), (Fin 99, 5, 2)]) = [True, True] \<and>
   fst (update_bid (run (new_book 2) (map bid_call [(Fin 100, 10, 1), (Fin 99, 5, 2)]))
          (Fin 98) 7 3) = False \<and>
   fst (update_bid (run (new_book 2) (map bid_call [(Fin 100, 10, 1), (Fin 99, 5, 2)]))
          (Fin 99) 7 3) = True"
proof -
  let ?xs = "[(Fin 100, 10, 1), (Fin 99, 5, 2)] :: (double \<times> int64 \<times> uint64) list"
  have h: "length ?xs = 2 \<and> distinct_prices (map fst ?xs)"
    by (simp add: d_eq_def)
  have novel: "\<forall>x\<in>set ?xs. \<not> d_eq (fst x) (Fin 98)"
    by (simp add: d_eq_def)
  have repeated: "\<not> (\<forall>x\<in>set ?xs. \<not> d_eq (fst x) (Fin 99))"
    by (simp add: d_eq_def)
  from update_refused_iff_full_and_novel [of "new_book 2" "Fin 98" 7 3 ?xs 2] h novel
  have 1: "returned (new_book 2) (map bid_call ?xs) = replicate 2 True"
    and 2: "fst (update_bid (run (new_book 2) (map bid_call ?xs)) (Fin 98) 7 3) = False"
    by blast+
  from update_refused_iff_full_and_novel [of "new_book 2" "Fin 99" 7 3 ?xs 2] h repeated
  have 3: "fst (update_bid (run (new_book 2) (map bid_call ?xs)) (Fin 99) 7 3) = True"
    by blast
  from 1 2 3 show ?thesis by (simp add: eval_nat_numeral)
qed

section \<open>C5: the best level of a side\<close>


text \<open>
  Claim C5, as the code has it. \<^verbatim>\<open>get_best_bid\<close> returns the empty optional if and
  only if no valid bid slot has a price above \<open>0.0\<close>, the initial \<^verbatim>\<open>best_price\<close>;
  otherwise it returns a copy of a valid bid slot, and no valid bid slot has a higher
  price. \<^verbatim>\<open>get_best_ask\<close> returns the empty optional if and only if no valid ask slot
  has a price below \<^verbatim>\<open>DBL_MAX\<close>; otherwise it returns a copy of a valid ask slot, and
  no valid ask slot has a lower price.
\<close>

theorem best_of_side:
  "(get_best_bid b = None \<longleftrightarrow>
      (\<forall>level\<in>set (bids b). valid level \<longrightarrow> \<not> d_gt (price level) (Fin 0))) \<and>
   (get_best_bid b = Some r \<longrightarrow>
      r \<in> set (bids b) \<and> valid r \<and>
      (\<forall>level\<in>set (bids b). valid level \<longrightarrow> \<not> d_gt (price level) (price r))) \<and>
   (get_best_ask b = None \<longleftrightarrow>
      (\<forall>level\<in>set (asks b). valid level \<longrightarrow> \<not> d_lt (price level) DBL_MAX)) \<and>
   (get_best_ask b = Some r' \<longrightarrow>
      r' \<in> set (asks b) \<and> valid r' \<and>
      (\<forall>level\<in>set (asks b). valid level \<longrightarrow> \<not> d_lt (price level) (price r')))"
proof (intro conjI impI)
  show "get_best_bid b = None \<longleftrightarrow>
      (\<forall>level\<in>set (bids b). valid level \<longrightarrow> \<not> d_gt (price level) (Fin 0))"
    by (simp add: get_best_bid_def best_bid_loop_None_iff)
  show "get_best_ask b = None \<longleftrightarrow>
      (\<forall>level\<in>set (asks b). valid level \<longrightarrow> \<not> d_lt (price level) DBL_MAX)"
    by (simp add: get_best_ask_def best_ask_loop_None_iff)
next
  assume "get_best_bid b = Some r"
  then have l: "best_bid_loop (bids b) (Fin 0) None = Some r"
    by (simp add: get_best_bid_def)
  from best_bid_loop_Some [OF l] show "r \<in> set (bids b)" and "valid r" by simp_all
  from best_bid_loop_max [OF l]
  show "\<forall>level\<in>set (bids b). valid level \<longrightarrow> \<not> d_gt (price level) (price r)" by simp
next
  assume "get_best_ask b = Some r'"
  then have l: "best_ask_loop (asks b) DBL_MAX None = Some r'"
    by (simp add: get_best_ask_def)
  from best_ask_loop_Some [OF l] show "r' \<in> set (asks b)" and "valid r'" by simp_all
  from best_ask_loop_min [OF l]
  show "\<forall>level\<in>set (asks b). valid level \<longrightarrow> \<not> d_lt (price level) (price r')" by simp
qed

text \<open>
  Bids at 100 and 99, asks at 101 and 102: the best bid is the slot of 100, the best
  ask the slot of 101.
\<close>

theorem best_of_side_witness:
  "get_best_bid (run (new_book 2) [UpdateBid (Fin 100) 10 1, UpdateBid (Fin 99) 5 2,
       UpdateAsk (Fin 101) 8 3, UpdateAsk (Fin 102) 12 4]) =
     Some \<lparr>price = Fin 100, size_q = 10, timestamp_ns = 1, valid = True\<rparr> \<and>
   \<lparr>price = Fin 100, size_q = 10, timestamp_ns = 1, valid = True\<rparr> \<in>
     set (bids (run (new_book 2) [UpdateBid (Fin 100) 10 1, UpdateBid (Fin 99) 5 2,
       UpdateAsk (Fin 101) 8 3, UpdateAsk (Fin 102) 12 4])) \<and>
   get_best_ask (run (new_book 2) [UpdateBid (Fin 100) 10 1, UpdateBid (Fin 99) 5 2,
       UpdateAsk (Fin 101) 8 3, UpdateAsk (Fin 102) 12 4]) =
     Some \<lparr>price = Fin 101, size_q = 8, timestamp_ns = 3, valid = True\<rparr> \<and>
   \<lparr>price = Fin 101, size_q = 8, timestamp_ns = 3, valid = True\<rparr> \<in>
     set (asks (run (new_book 2) [UpdateBid (Fin 100) 10 1, UpdateBid (Fin 99) 5 2,
       UpdateAsk (Fin 101) 8 3, UpdateAsk (Fin 102) 12 4])) \<and>
   get_best_bid (new_book 2) = None \<and> get_best_ask (new_book 2) = None"
proof -
  let ?b = "run (new_book 2) [UpdateBid (Fin 100) 10 1, UpdateBid (Fin 99) 5 2,
       UpdateAsk (Fin 101) 8 3, UpdateAsk (Fin 102) 12 4]"
  let ?r = "\<lparr>price = Fin 100, size_q = 10, timestamp_ns = 1, valid = True\<rparr>"
  let ?a = "\<lparr>price = Fin 101, size_q = 8, timestamp_ns = 3, valid = True\<rparr>"
  have bid: "get_best_bid ?b = Some ?r" and ask: "get_best_ask ?b = Some ?a"
    by (simp_all add: run_eval)
  have none: "\<forall>level\<in>set (bids (new_book 2)). valid level \<longrightarrow> \<not> d_gt (price level) (Fin 0)"
    "\<forall>level\<in>set (asks (new_book 2)). valid level \<longrightarrow> \<not> d_lt (price level) DBL_MAX"
    by (simp_all add: new_book_def PriceLevel_init_def)
  from best_of_side [of ?b ?r ?a] bid ask
  have "?r \<in> set (bids ?b)" and "?a \<in> set (asks ?b)" by blast+
  moreover from best_of_side [of "new_book 2"] none
  have "get_best_bid (new_book 2) = None" and "get_best_ask (new_book 2) = None" by blast+
  ultimately show ?thesis using bid ask by blast
qed

text \<open>
  The claim as the specification states it (empty if and only if no slot is valid) fails:
  a valid bid at the price 0 and a valid ask at \<^verbatim>\<open>DBL_MAX\<close> are never returned.
\<close>

theorem best_of_side_counterexample:
  "get_best_bid (run (new_book 1) [UpdateBid (Fin 0) 5 1]) = None \<and>
   bids (run (new_book 1) [UpdateBid (Fin 0) 5 1]) =
     [\<lparr>price = Fin 0, size_q = 5, timestamp_ns = 1, valid = True\<rparr>] \<and>
   get_best_ask (run (new_book 1) [UpdateAsk DBL_MAX 5 1]) = None \<and>
   asks (run (new_book 1) [UpdateAsk DBL_MAX 5 1]) =
     [\<lparr>price = DBL_MAX, size_q = 5, timestamp_ns = 1, valid = True\<rparr>]"
  by (simp add: run_eval)

section \<open>C6: update, then read\<close>


lemma update_level_holds_price:
  "fst (update_level levels p s t) \<Longrightarrow> s \<noteq> 0 \<Longrightarrow> d_eq p p \<Longrightarrow>
   holds_price (snd (update_level levels p s t)) p"
  by (induction levels) auto

lemma update_level_keeps_price:
  "holds_price levels p \<Longrightarrow> \<not> d_eq q p \<Longrightarrow>
   holds_price (snd (update_level levels q s t)) p"
  by (induction levels) (auto dest: d_eq_same)

lemma exec_keeps_bid_price:
  "holds_price (bids b) p \<Longrightarrow> \<not> touches_bid p c \<Longrightarrow> holds_price (bids (snd (exec b c))) p"
  by (cases c) (auto simp: snd_update_bid snd_update_ask update_level_keeps_price)

lemma run_keeps_bid_price:
  "holds_price (bids b) p \<Longrightarrow> \<forall>c\<in>set cs. \<not> touches_bid p c \<Longrightarrow>
   holds_price (bids (run b cs)) p"
  by (induction cs arbitrary: b) (auto simp: exec_keeps_bid_price)

lemma d_gt_refl_eq: "d_gt p q \<Longrightarrow> d_eq p p"
  unfolding d_gt_def d_eq_def by (auto dest: d_lt_not_NaN)

lemma best_bid_of_held_price:
  assumes h: "holds_price (bids b) p" and pos: "d_gt p (Fin 0)"
  shows "\<exists>r. get_best_bid b = Some r \<and> d_ge (price r) p \<and>
     ((\<forall>level\<in>set (bids b). valid level \<longrightarrow> \<not> d_gt (price level) p) \<longrightarrow> d_eq (price r) p)"
proof -
  from h obtain level where l: "level \<in> set (bids b)" "valid level" "d_eq (price level) p"
    by (auto simp: holds_price_iff)
  then have lp: "price level = p" by (simp add: d_eq_def)
  have "get_best_bid b \<noteq> None"
    using l pos lp by (auto simp: get_best_bid_def best_bid_loop_None_iff)
  then obtain r where r: "get_best_bid b = Some r" by auto
  then have loop: "best_bid_loop (bids b) (Fin 0) None = Some r"
    by (simp add: get_best_bid_def)
  from best_bid_loop_Some [OF loop] have vr: "r \<in> set (bids b)" "valid r" "d_gt (price r) (Fin 0)"
    by simp_all
  from best_bid_loop_max [OF loop] l lp have "\<not> d_gt p (price r)" by auto
  moreover have "p \<noteq> NaN" "price r \<noteq> NaN"
    using pos vr(3) by (auto simp: d_gt_def dest: d_lt_not_NaN)
  ultimately have ge: "d_gt (price r) p \<or> price r = p"
    using d_total [of p "price r"] by (auto simp: d_gt_def)
  then have "d_ge (price r) p"
    using \<open>p \<noteq> NaN\<close> by (auto simp: d_ge_def d_eq_def)
  moreover have "d_eq (price r) p"
    if "\<forall>level\<in>set (bids b). valid level \<longrightarrow> \<not> d_gt (price level) p"
    using that vr ge \<open>p \<noteq> NaN\<close> by (auto simp: d_eq_def)
  ultimately show ?thesis using r by blast
qed

text \<open>
  Claim C6, as the code has it. For a price \<open>p\<close> above \<open>0.0\<close>, a size \<open>s > 0\<close> and any
  timestamp: if \<^verbatim>\<open>update_bid(p, s, t)\<close> returns \<^verbatim>\<open>true\<close>, then after any sequence of
  further updates none of which is an update of the bid side at the price \<open>p\<close>,
  \<^verbatim>\<open>get_best_bid\<close> returns a snapshot whose price is \<^verbatim>\<open>>= p\<close>, and \<^verbatim>\<open>== p\<close> when
  no valid bid slot holds a higher price.
\<close>

theorem update_then_read:
  assumes "d_gt p (Fin 0)" and "0 < sint s" and "fst (update_bid b p s t) = True"
    and "\<forall>c\<in>set cs. \<not> touches_bid p c"
  shows "\<exists>r. get_best_bid (run (snd (update_bid b p s t)) cs) = Some r \<and>
      d_ge (price r) p \<and>
      ((\<forall>level\<in>set (bids (run (snd (update_bid b p s t)) cs)).
          valid level \<longrightarrow> \<not> d_gt (price level) p) \<longrightarrow> d_eq (price r) p)"
proof -
  from assms(2) have "s \<noteq> 0" by auto
  with assms(1,3) have "holds_price (bids (snd (update_bid b p s t))) p"
    by (simp add: fst_update_bid snd_update_bid update_level_holds_price d_gt_refl_eq)
  then have "holds_price (bids (run (snd (update_bid b p s t)) cs)) p"
    using assms(4) by (rule run_keeps_bid_price)
  then show ?thesis using assms(1) by (rule best_bid_of_held_price)
qed

text \<open>
  A bid at 100 into a new book, then a bid at 99 and an ask at 100: the best bid is at
  100.
\<close>

theorem update_then_read_witness:
  "d_gt (Fin 100) (Fin 0) \<and> 0 < sint (10 :: int64) \<and>
   fst (update_bid (new_book 2) (Fin 100) 10 1) = True \<and>
   (\<exists>r. get_best_bid (run (snd (update_bid (new_book 2) (Fin 100) 10 1))
            [UpdateBid (Fin 99) 5 2, UpdateAsk (Fin 100) 3 3]) = Some r \<and>
        d_ge (price r) (Fin 100) \<and> d_eq (price r) (Fin 100))"
proof -
  let ?cs = "[UpdateBid (Fin 99) 5 2, UpdateAsk (Fin 100) 3 3]"
  let ?b = "run (snd (update_bid (new_book 2) (Fin 100) 10 1)) ?cs"
  have 1: "d_gt (Fin 100) (Fin 0)" by (simp add: d_gt_def)
  have 2: "0 < sint (10 :: int64)" by simp
  have 3: "fst (update_bid (new_book 2) (Fin 100) 10 1) = True" by (simp add: run_eval)
  have 4: "\<forall>c\<in>set ?cs. \<not> touches_bid (Fin 100) c" by (simp add: d_eq_def)
  have 5: "\<forall>level\<in>set (bids ?b). valid level \<longrightarrow> \<not> d_gt (price level) (Fin 100)"
    by (simp add: run_eval)
  from update_then_read [OF 1 2 3 4] 5 show ?thesis using 1 2 3 by blast
qed

text \<open>
  The claim as the specification states it (for every price) fails at the price 0: the
  update returns \<^verbatim>\<open>true\<close>, and \<^verbatim>\<open>get_best_bid\<close> returns no snapshot.
\<close>

theorem update_then_read_counterexample:
  "fst (update_bid (new_book 1) (Fin 0) 5 1) = True \<and>
   get_best_bid (snd (update_bid (new_book 1) (Fin 0) 5 1)) = None"
  by (simp add: run_eval)

section \<open>C7: mid price and spread\<close>

lemma d_sub_exact_negative: "d_lt x y \<Longrightarrow> d_lt (d_sub_exact x y) (Fin 0)"
  by (cases x; cases y) auto

text \<open>
  Claim C7. Whenever both \<^verbatim>\<open>get_best_bid\<close> and \<^verbatim>\<open>get_best_ask\<close> return snapshots,
  \<^verbatim>\<open>get_mid_price\<close> returns the sum of the two prices divided by 2 and
  \<^verbatim>\<open>get_spread\<close> returns the ask price minus the bid price, as the subtraction gives
  it, with no clamping; whenever one of the two returns no snapshot, both helpers return
  the empty optional. The two equations hold whatever the machine's \<^verbatim>\<open>+\<close>, \<^verbatim>\<open>-\<close>
  and \<^verbatim>\<open>/\<close> round to. When the best ask is below the best bid, the spread is negative;
  this last part is stated for the subtraction without rounding.
\<close>

theorem mid_price_and_spread:
  "(get_best_bid b = Some bid \<and> get_best_ask b = Some ask \<longrightarrow>
      get_mid_price fadd fdiv b = Some (fdiv (fadd (price bid) (price ask)) (Fin 2)) \<and>
      get_spread fsub b = Some (fsub (price ask) (price bid))) \<and>
   (get_best_bid b = None \<or> get_best_ask b = None \<longrightarrow>
      get_mid_price fadd fdiv b = None \<and> get_spread fsub b = None) \<and>
   (get_best_bid b = Some bid \<and> get_best_ask b = Some ask \<and> d_lt (price ask) (price bid) \<longrightarrow>
      (\<exists>v. get_spread d_sub_exact b = Some v \<and> d_lt v (Fin 0)))"
  by (auto simp: get_mid_price_def get_spread_def d_sub_exact_negative split: option.splits)

text \<open>
  A crossed book, a bid at 101 and an ask at 100: the mid price is 100.5 and the spread
  is \<open>-1\<close>. A book with a bid only: both helpers return the empty optional.
\<close>

theorem mid_price_and_spread_witness:
  "get_mid_price d_add_exact d_div_exact
     (run (new_book 2) [UpdateBid (Fin 101) 10 1, UpdateAsk (Fin 100) 10 2]) = Some (Fin (201 / 2)) \<and>
   get_spread d_sub_exact
     (run (new_book 2) [UpdateBid (Fin 101) 10 1, UpdateAsk (Fin 100) 10 2]) = Some (Fin (- 1)) \<and>
   (\<exists>v. get_spread d_sub_exact
      (run (new_book 2) [UpdateBid (Fin 101) 10 1, UpdateAsk (Fin 100) 10 2]) = Some v \<and>
      d_lt v (Fin 0)) \<and>
   get_mid_price d_add_exact d_div_exact (run (new_book 2) [UpdateBid (Fin 50) 10 1]) = None \<and>
   get_spread d_sub_exact (run (new_book 2) [UpdateBid (Fin 50) 10 1]) = None"
proof -
  let ?b = "run (new_book 2) [UpdateBid (Fin 101) 10 1, UpdateAsk (Fin 100) 10 2]"
  let ?c = "run (new_book 2) [UpdateBid (Fin 50) 10 1]"
  let ?bid = "\<lparr>price = Fin 101, size_q = 10, timestamp_ns = 1, valid = True\<rparr>"
  let ?ask = "\<lparr>price = Fin 100, size_q = 10, timestamp_ns = 2, valid = True\<rparr>"
  have both: "get_best_bid ?b = Some ?bid \<and> get_best_ask ?b = Some ?ask"
    by (simp add: run_eval)
  have one: "get_best_bid ?c = None \<or> get_best_ask ?c = None"
    by (simp add: run_eval)
  from mid_price_and_spread [of ?b ?bid ?ask d_add_exact d_div_exact d_sub_exact] both
  have "get_mid_price d_add_exact d_div_exact ?b =
      Some (d_div_exact (d_add_exact (price ?bid) (price ?ask)) (Fin 2))"
    and "get_spread d_sub_exact ?b = Some (d_sub_exact (price ?ask) (price ?bid))"
    by blast+
  moreover have "d_lt (price ?ask) (price ?bid)" by simp
  with mid_price_and_spread [of ?b ?bid ?ask d_add_exact d_div_exact d_sub_exact] both
  have "\<exists>v. get_spread d_sub_exact ?b = Some v \<and> d_lt v (Fin 0)"
    by blast
  moreover from mid_price_and_spread [of ?c _ _ d_add_exact d_div_exact d_sub_exact] one
  have "get_mid_price d_add_exact d_div_exact ?c = None" and "get_spread d_sub_exact ?c = None"
    by blast+
  ultimately show ?thesis by simp
qed

section \<open>C8: the same update twice\<close>

lemma update_level_twice:
  "s \<noteq> 0 \<Longrightarrow> d_eq p p \<Longrightarrow>
   update_level (snd (update_level levels p s t)) p s t = update_level levels p s t"
  by (induction levels) auto

text \<open>
  Claim C8, as the code has it. For a size other than 0 and a price that is not a NaN,
  \<^verbatim>\<open>update_bid(p, s, t)\<close> called twice in a row returns the second time what it returned
  the first time and leaves the book exactly as the first call left it; so for
  \<^verbatim>\<open>update_ask\<close>. The two books being equal, no later query or update can tell them
  apart.
\<close>

theorem update_twice_is_update_once:
  "s \<noteq> 0 \<and> d_eq p p \<longrightarrow>
     update_bid (snd (update_bid b p s t)) p s t = update_bid b p s t \<and>
     update_ask (snd (update_ask b p s t)) p s t = update_ask b p s t"
  by (simp add: update_bid_eq update_ask_eq update_level_twice)

text \<open>A bid at 100 and an ask at 100, each sent twice to a new book.\<close>

theorem update_twice_is_update_once_witness:
  "(10 :: int64) \<noteq> 0 \<and> d_eq (Fin 100) (Fin 100) \<and>
   update_bid (snd (update_bid (new_book 2) (Fin 100) 10 1)) (Fin 100) 10 1 =
     update_bid (new_book 2) (Fin 100) 10 1 \<and>
   update_ask (snd (update_ask (new_book 2) (Fin 100) 10 1)) (Fin 100) 10 1 =
     update_ask (new_book 2) (Fin 100) 10 1"
proof -
  have h: "(10 :: int64) \<noteq> 0 \<and> d_eq (Fin 100) (Fin 100)"
    by (simp add: d_eq_def)
  from update_twice_is_update_once [of 10 "Fin 100" "new_book 2" 1] h
  show ?thesis by blast
qed

text \<open>
  The claim as the specification states it (for all arguments) fails for the size 0 and
  for a NaN. With a bid at 100 in place, one withdrawal removes it and a second, equal
  withdrawal claims the freed slot for the price 100 with size 0, so \<^verbatim>\<open>get_best_bid\<close>
  returns a snapshot again. A NaN equals no price, itself included, so the second
  update at a NaN claims a second slot: in a book of two slots a bid at 100 is accepted
  after one such update and refused after two.
\<close>

theorem update_twice_is_update_once_counterexample:
  "get_best_bid (run (new_book 1) [UpdateBid (Fin 100) 10 1, UpdateBid (Fin 100) 0 2]) = None \<and>
   get_best_bid (run (new_book 1)
       [UpdateBid (Fin 100) 10 1, UpdateBid (Fin 100) 0 2, UpdateBid (Fin 100) 0 2]) =
     Some \<lparr>price = Fin 100, size_q = 0, timestamp_ns = 2, valid = True\<rparr> \<and>
   fst (update_bid (run (new_book 2) [UpdateBid NaN 5 1]) (Fin 100) 7 2) = True \<and>
   fst (update_bid (run (new_book 2) [UpdateBid NaN 5 1, UpdateBid NaN 5 1]) (Fin 100) 7 2) = False"
  by (simp add: run_eval)

section \<open>C9: a refused update changes nothing\<close>

text \<open>
  Claim C9. Whenever \<^verbatim>\<open>update_bid\<close> or \<^verbatim>\<open>update_ask\<close> returns \<^verbatim>\<open>false\<close>, the book
  is exactly as it was before the call: every slot of both sides keeps its price, size,
  timestamp and \<^verbatim>\<open>valid\<close> flag.
\<close>

theorem failed_update_changes_nothing:
  "(fst (update_bid b p s t) = False \<longrightarrow> snd (update_bid b p s t) = b) \<and>
   (fst (update_ask b p s t) = False \<longrightarrow> snd (update_ask b p s t) = b)"
  by (simp add: fst_update_bid snd_update_bid fst_update_ask snd_update_ask
      update_level_False_same)

text \<open>
  A book of one slot per side, both taken: a bid at the new price 99 and an ask at the
  new price 102 are refused and leave the book as it was.
\<close>

theorem failed_update_changes_nothing_witness:
  "fst (update_bid (run (new_book 1) [UpdateBid (Fin 100) 10 1, UpdateAsk (Fin 101) 8 2])
          (Fin 99) 5 3) = False \<and>
   snd (update_bid (run (new_book 1) [UpdateBid (Fin 100) 10 1, UpdateAsk (Fin 101) 8 2])
          (Fin 99) 5 3)
     = run (new_book 1) [UpdateBid (Fin 100) 10 1, UpdateAsk (Fin 101) 8 2] \<and>
   fst (update_ask (run (new_book 1) [UpdateBid (Fin 100) 10 1, UpdateAsk (Fin 101) 8 2])
          (Fin 102) 5 3) = False \<and>
   snd (update_ask (run (new_book 1) [UpdateBid (Fin 100) 10 1, UpdateAsk (Fin 101) 8 2])
          (Fin 102) 5 3)
     = run (new_book 1) [UpdateBid (Fin 100) 10 1, UpdateAsk (Fin 101) 8 2]"
proof -
  let ?b = "run (new_book 1) [UpdateBid (Fin 100) 10 1, UpdateAsk (Fin 101) 8 2]"
  have bid: "fst (update_bid ?b (Fin 99) 5 3) = False"
    by (simp add: run_eval)
  have ask: "fst (update_ask ?b (Fin 102) 5 3) = False"
    by (simp add: run_eval)
  from failed_update_changes_nothing [of ?b "Fin 99" 5 3] bid
  have "snd (update_bid ?b (Fin 99) 5 3) = ?b" by blast
  moreover from failed_update_changes_nothing [of ?b "Fin 102" 5 3] ask
  have "snd (update_ask ?b (Fin 102) 5 3) = ?b" by blast
  ultimately show ?thesis using bid ask by blast
qed

section \<open>C10: negative sizes\<close>

lemma fst_update_level_iff:
  "fst (update_level levels p s t) \<longleftrightarrow>
     (\<exists>level\<in>set levels. \<not> valid level) \<or> holds_price levels p"
  using update_level_False_iff [of levels p s t] by (auto simp: holds_price_iff)

lemma update_level_writes_one_slot:
  "fst (update_level levels p s t) \<Longrightarrow>
   \<exists>i<length levels. \<forall>s'. s' \<noteq> 0 \<longrightarrow>
     update_level levels p s' t = (True, levels[i := level_of (p, s', t)])"
proof (induction levels)
  case Nil
  then show ?case by simp
next
  case (Cons level levels)
  show ?case
  proof (cases "\<not> valid level \<or> d_eq (price level) p")
    case True
    then have "\<forall>s'. s' \<noteq> 0 \<longrightarrow>
        update_level (level # levels) p s' t = (True, (level # levels)[0 := level_of (p, s', t)])"
      by (auto simp: d_eq_def)
    then show ?thesis by (intro exI [of _ 0]) simp
  next
    case False
    with Cons.prems have "fst (update_level levels p s t)" by simp
    from Cons.IH [OF this] obtain i where i: "i < length levels"
      "\<forall>s'. s' \<noteq> 0 \<longrightarrow> update_level levels p s' t = (True, levels[i := level_of (p, s', t)])"
      by blast
    with False have "\<forall>s'. s' \<noteq> 0 \<longrightarrow>
        update_level (level # levels) p s' t = (True, (level # levels)[Suc i := level_of (p, s', t)])"
      by simp
    with i(1) show ?thesis by (intro exI [of _ "Suc i"]) simp
  qed
qed

lemma best_bid_after_update:
  "s \<noteq> 0 \<Longrightarrow> fst (update_level levels p s t) \<Longrightarrow> d_gt p bp \<Longrightarrow>
   \<forall>level\<in>set levels. valid level \<longrightarrow> \<not> d_gt (price level) p \<Longrightarrow>
   best_bid_loop (snd (update_level levels p s t)) bp bl = Some (level_of (p, s, t))"
proof (induction levels arbitrary: bp bl)
  case Nil
  then show ?case by simp
next
  case (Cons level levels)
  have rest: "\<forall>l\<in>set levels. valid l \<longrightarrow> \<not> d_gt (price l) p"
    using Cons.prems(4) by simp
  show ?case
  proof (cases "\<not> valid level \<or> d_eq (price level) p")
    case True
    then have "snd (update_level (level # levels) p s t) = level_of (p, s, t) # levels"
      using Cons.prems(1) by (auto simp: d_eq_def)
    then show ?thesis
      using Cons.prems(3) rest by (simp add: best_bid_loop_keeps)
  next
    case False
    then have v: "valid level" and ne: "\<not> d_eq (price level) p" by simp_all
    from False Cons.prems(2) have ok: "fst (update_level levels p s t)" by simp
    have step: "snd (update_level (level # levels) p s t) =
        level # snd (update_level levels p s t)"
      using False by simp
    show ?thesis
    proof (cases "d_gt (price level) bp")
      case True
      have "\<not> d_gt (price level) p" using Cons.prems(4) v by simp
      moreover have "price level \<noteq> NaN" "p \<noteq> NaN"
        using True Cons.prems(3) by (auto simp: d_gt_def dest: d_lt_not_NaN)
      ultimately have "d_gt p (price level)"
        using ne d_total [of "price level" p] by (auto simp: d_gt_def d_eq_def)
      from Cons.IH [OF Cons.prems(1) ok this rest] True v show ?thesis
        unfolding step by simp
    next
      case False
      from Cons.IH [OF Cons.prems(1) ok Cons.prems(3) rest] False show ?thesis
        unfolding step by simp
    qed
  qed
qed

text \<open>
  Claim C10. An update with a negative size is not rejected and is treated as one with
  a positive size. For every \<open>s < 0\<close>: \<^verbatim>\<open>update_bid(p, s, t)\<close> returns \<^verbatim>\<open>true\<close> if and
  only if some bid slot is free or some valid bid slot holds the price \<open>p\<close>; when it
  returns \<^verbatim>\<open>true\<close>, the book is the one before with one bid slot overwritten by the
  valid level \<open>(p, s, t)\<close>, and the same call with any positive size overwrites the
  same slot with its level; and when in addition \<open>p\<close> is above \<open>0.0\<close> and no valid
  bid slot held a higher price, \<^verbatim>\<open>get_best_bid\<close> returns that level, negative size
  included.
\<close>

theorem negative_size_accepted:
  assumes "sint s < 0"
  shows "fst (update_bid b p s t) =
           ((\<exists>level\<in>set (bids b). \<not> valid level) \<or> holds_price (bids b) p) \<and>
         (fst (update_bid b p s t) \<longrightarrow>
           (\<exists>i<length (bids b).
              snd (update_bid b p s t) = b\<lparr>bids := (bids b)[i := level_of (p, s, t)]\<rparr> \<and>
              (\<forall>s'. 0 < sint s' \<longrightarrow>
                 update_bid b p s' t =
                   (True, b\<lparr>bids := (bids b)[i := level_of (p, s', t)]\<rparr>)))) \<and>
         (fst (update_bid b p s t) \<and> d_gt p (Fin 0) \<and>
          (\<forall>level\<in>set (bids b). valid level \<longrightarrow> \<not> d_gt (price level) p) \<longrightarrow>
            get_best_bid (snd (update_bid b p s t)) = Some (level_of (p, s, t)))"
proof (intro conjI)
  from assms have s: "s \<noteq> 0" by auto
  show "fst (update_bid b p s t) =
           ((\<exists>level\<in>set (bids b). \<not> valid level) \<or> holds_price (bids b) p)"
    unfolding fst_update_bid by (rule fst_update_level_iff)
  show "fst (update_bid b p s t) \<longrightarrow>
           (\<exists>i<length (bids b).
              snd (update_bid b p s t) = b\<lparr>bids := (bids b)[i := level_of (p, s, t)]\<rparr> \<and>
              (\<forall>s'. 0 < sint s' \<longrightarrow>
                 update_bid b p s' t =
                   (True, b\<lparr>bids := (bids b)[i := level_of (p, s', t)]\<rparr>)))"
  proof
    assume "fst (update_bid b p s t)"
    then have "fst (update_level (bids b) p s t)" by (simp add: fst_update_bid)
    from update_level_writes_one_slot [OF this] obtain i where i: "i < length (bids b)"
      "\<And>s'. s' \<noteq> 0 \<Longrightarrow>
         update_level (bids b) p s' t = (True, (bids b)[i := level_of (p, s', t)])"
      by blast
    have "snd (update_bid b p s t) = b\<lparr>bids := (bids b)[i := level_of (p, s, t)]\<rparr>"
      using i(2) [OF s] by (simp add: update_bid_eq)
    moreover have "update_bid b p s' t = (True, b\<lparr>bids := (bids b)[i := level_of (p, s', t)]\<rparr>)"
      if "0 < sint s'" for s'
    proof -
      from that have "s' \<noteq> 0" by auto
      from i(2) [OF this] show ?thesis by (simp add: update_bid_eq)
    qed
    ultimately show "\<exists>i<length (bids b).
              snd (update_bid b p s t) = b\<lparr>bids := (bids b)[i := level_of (p, s, t)]\<rparr> \<and>
              (\<forall>s'. 0 < sint s' \<longrightarrow>
                 update_bid b p s' t =
                   (True, b\<lparr>bids := (bids b)[i := level_of (p, s', t)]\<rparr>))"
      using i(1) by blast
  qed
  show "fst (update_bid b p s t) \<and> d_gt p (Fin 0) \<and>
          (\<forall>level\<in>set (bids b). valid level \<longrightarrow> \<not> d_gt (price level) p) \<longrightarrow>
            get_best_bid (snd (update_bid b p s t)) = Some (level_of (p, s, t))"
  proof (intro impI, elim conjE)
    assume a: "fst (update_bid b p s t)" "d_gt p (Fin 0)"
      "\<forall>level\<in>set (bids b). valid level \<longrightarrow> \<not> d_gt (price level) p"
    from a(1) have ok: "fst (update_level (bids b) p s t)"
      by (simp add: fst_update_bid)
    have "best_bid_loop (snd (update_level (bids b) p s t)) (Fin 0) None =
        Some (level_of (p, s, t))"
      by (rule best_bid_after_update [OF s ok a(2) a(3)])
    then show "get_best_bid (snd (update_bid b p s t)) = Some (level_of (p, s, t))"
      by (simp add: get_best_bid_def snd_update_bid)
  qed
qed

text \<open>
  A bid at 99 in a book of two slots, then a bid at 100 with the size \<open>-5\<close>: it is
  accepted, written into slot 1, where a size of 5 would have been written too, and
  returned by \<^verbatim>\<open>get_best_bid\<close>.
\<close>

theorem negative_size_accepted_witness:
  "sint (- 5 :: int64) < 0 \<and>
   fst (update_bid (run (new_book 2) [UpdateBid (Fin 99) 5 1]) (Fin 100) (- 5) 2) = True \<and>
   bids (snd (update_bid (run (new_book 2) [UpdateBid (Fin 99) 5 1]) (Fin 100) (- 5) 2)) =
     [\<lparr>price = Fin 99, size_q = 5, timestamp_ns = 1, valid = True\<rparr>,
      \<lparr>price = Fin 100, size_q = - 5, timestamp_ns = 2, valid = True\<rparr>] \<and>
   bids (snd (update_bid (run (new_book 2) [UpdateBid (Fin 99) 5 1]) (Fin 100) 5 2)) =
     [\<lparr>price = Fin 99, size_q = 5, timestamp_ns = 1, valid = True\<rparr>,
      \<lparr>price = Fin 100, size_q = 5, timestamp_ns = 2, valid = True\<rparr>] \<and>
   get_best_bid (snd (update_bid (run (new_book 2) [UpdateBid (Fin 99) 5 1])
       (Fin 100) (- 5) 2)) =
     Some \<lparr>price = Fin 100, size_q = - 5, timestamp_ns = 2, valid = True\<rparr>"
proof -
  let ?b = "run (new_book 2) [UpdateBid (Fin 99) 5 1]"
  have neg: "sint (- 5 :: int64) < 0" by simp
  have free: "(\<exists>level\<in>set (bids ?b). \<not> valid level) \<or> holds_price (bids ?b) (Fin 100)"
    by (simp add: run_eval)
  have best: "d_gt (Fin 100) (Fin 0) \<and>
      (\<forall>level\<in>set (bids ?b). valid level \<longrightarrow> \<not> d_gt (price level) (Fin 100))"
    by (simp add: run_eval)
  note c10 = negative_size_accepted [OF neg, of ?b "Fin 100" 2]
  from c10 free have ok: "fst (update_bid ?b (Fin 100) (- 5) 2) = True" by blast
  from c10 ok best
  have "get_best_bid (snd (update_bid ?b (Fin 100) (- 5) 2)) = Some (level_of (Fin 100, - 5, 2))"
    by blast
  moreover have "bids (snd (update_bid ?b (Fin 100) (- 5) 2)) =
     [\<lparr>price = Fin 99, size_q = 5, timestamp_ns = 1, valid = True\<rparr>,
      \<lparr>price = Fin 100, size_q = - 5, timestamp_ns = 2, valid = True\<rparr>]"
    and "bids (snd (update_bid ?b (Fin 100) 5 2)) =
     [\<lparr>price = Fin 99, size_q = 5, timestamp_ns = 1, valid = True\<rparr>,
      \<lparr>price = Fin 100, size_q = 5, timestamp_ns = 2, valid = True\<rparr>]"
    by (simp_all add: run_eval)
  ultimately show ?thesis using neg ok by simp
qed

end
